theory Spec2Isabelle
  imports Complex_Main "HOL-Library.AList"
begin

section \<open>Values, errors and the platform functions the cache calls\<close>

text \<open>
  The cache stores values of any shape. A value is modelled as a tree: the primitives, a
  BigInt, a function, arrays and plain objects (own properties in order). A number is an
  integer-valued number of magnitude below \<open>2^53\<close>; a string is its text in UTF-8, one
  \<open>char\<close> a byte, so \<open>length\<close> is the byte length that \<open>new Blob([s]).size\<close> reports.
\<close>

datatype jsval =
    JUndefined
  | JNull
  | JBool bool
  | JNum int
  | JStr string
  | JBigInt int
  | JFunction
  | JArr "jsval list"
  | JObj "(string \<times> jsval) list"

datatype exn = TypeError string | Error string

subsection \<open>\<open>JSON.stringify\<close>\<close>

definition hexdigit :: "nat \<Rightarrow> char" where
  "hexdigit n = (if n < 10 then char_of (48 + n) else char_of (87 + n))"

definition UnicodeEscape :: "char \<Rightarrow> string" where
  "UnicodeEscape c =
     [CHR 0x5C, CHR ''u'', CHR ''0'', CHR ''0'',
      hexdigit ((of_char c :: nat) div 16), hexdigit ((of_char c :: nat) mod 16)]"

definition QuoteJSONChar :: "char \<Rightarrow> string" where
  "QuoteJSONChar c =
     (let n = (of_char c :: nat) in
      if n = 0x08 then [CHR 0x5C, CHR ''b'']
      else if n = 0x09 then [CHR 0x5C, CHR ''t'']
      else if n = 0x0A then [CHR 0x5C, CHR ''n'']
      else if n = 0x0C then [CHR 0x5C, CHR ''f'']
      else if n = 0x0D then [CHR 0x5C, CHR ''r'']
      else if n = 0x22 then [CHR 0x5C, CHR 0x22]
      else if n = 0x5C then [CHR 0x5C, CHR 0x5C]
      else if n < 0x20 then UnicodeEscape c
      else [c])"

definition QuoteJSONString :: "string \<Rightarrow> string" where
  "QuoteJSONString s = CHR 0x22 # concat (map QuoteJSONChar s) @ [CHR 0x22]"

fun digits :: "nat \<Rightarrow> string" where
  "digits n = (if n < 10 then [char_of (48 + n)] else digits (n div 10) @ [char_of (48 + n mod 10)])"

declare digits.simps [simp del]

definition NumberToString :: "int \<Rightarrow> string" where
  "NumberToString n = (if n < 0 then CHR ''-'' # digits (nat (- n)) else digits (nat n))"

fun join :: "string list \<Rightarrow> string" where
  "join [] = []"
| "join [t] = t"
| "join (t # u # ts) = t @ CHR '','' # join (u # ts)"

text \<open>
  \<open>SerializeJSONProperty\<close> returns \<open>Inr None\<close> where \<open>JSON.stringify\<close> returns
  \<open>undefined\<close> (for \<open>undefined\<close> and for a function) and \<open>Inl\<close> where it throws (a BigInt
  anywhere in the value). In an array an unserialisable element is written \<open>null\<close>; in an
  object such a property is left out.
\<close>

fun SerializeJSONProperty :: "jsval \<Rightarrow> exn + string option"
  and SerializeJSONArray :: "jsval list \<Rightarrow> exn + string list"
  and SerializeJSONObject :: "(string \<times> jsval) list \<Rightarrow> exn + string list"
where
  "SerializeJSONProperty JUndefined = Inr None"
| "SerializeJSONProperty JFunction = Inr None"
| "SerializeJSONProperty JNull = Inr (Some ''null'')"
| "SerializeJSONProperty (JBool b) = Inr (Some (if b then ''true'' else ''false''))"
| "SerializeJSONProperty (JNum n) = Inr (Some (NumberToString n))"
| "SerializeJSONProperty (JStr s) = Inr (Some (QuoteJSONString s))"
| "SerializeJSONProperty (JBigInt n) = Inl (TypeError ''Do not know how to serialize a BigInt'')"
| "SerializeJSONProperty (JArr xs) =
     (case SerializeJSONArray xs of
        Inl e \<Rightarrow> Inl e
      | Inr ts \<Rightarrow> Inr (Some (CHR ''['' # join ts @ [CHR '']''])))"
| "SerializeJSONProperty (JObj ps) =
     (case SerializeJSONObject ps of
        Inl e \<Rightarrow> Inl e
      | Inr ts \<Rightarrow> Inr (Some (CHR ''{'' # join ts @ [CHR ''}''])))"
| "SerializeJSONArray [] = Inr []"
| "SerializeJSONArray (x # xs) =
     (case SerializeJSONProperty x of
        Inl e \<Rightarrow> Inl e
      | Inr t \<Rightarrow>
          (case SerializeJSONArray xs of
             Inl e \<Rightarrow> Inl e
           | Inr ts \<Rightarrow> Inr ((case t of None \<Rightarrow> ''null'' | Some u \<Rightarrow> u) # ts)))"
| "SerializeJSONObject [] = Inr []"
| "SerializeJSONObject (p # ps) =
     (case SerializeJSONProperty (snd p) of
        Inl e \<Rightarrow> Inl e
      | Inr t \<Rightarrow>
          (case SerializeJSONObject ps of
             Inl e \<Rightarrow> Inl e
           | Inr ts \<Rightarrow>
               Inr (case t of
                      None \<Rightarrow> ts
                    | Some u \<Rightarrow> (QuoteJSONString (fst p) @ CHR '':'' # u) # ts)))"

definition JSON_stringify :: "jsval \<Rightarrow> exn + string option" where
  "JSON_stringify v = SerializeJSONProperty v"

text \<open>
  \<open>new Blob([x]).size\<close>: the part is converted to a string and encoded in UTF-8, so the
  value \<open>undefined\<close> is the nine bytes of the word \<open>undefined\<close>.
\<close>

definition Blob_size :: "string option \<Rightarrow> nat" where
  "Blob_size x = (case x of None \<Rightarrow> length ''undefined'' | Some t \<Rightarrow> length t)"

text \<open>\<open>Math.round\<close>: the nearest integer, a tie going up.\<close>

definition Math_round :: "rat \<Rightarrow> int" where
  "Math_round x = \<lfloor>x + 1 / 2\<rfloor>"

subsection \<open>Regular expressions\<close>

text \<open>
  \<open>RegExp.prototype.test\<close> is stateful for a pattern with the \<open>g\<close> or \<open>y\<close> flag: the
  search starts at \<open>lastIndex\<close>, which a match moves to the end of the match and a failure
  sets back to 0. The matching engine itself is the field \<open>exec_from\<close>: the end of the
  match found in the string when searching from the given index, if there is one.
\<close>

record regexp =
  exec_from :: "string \<Rightarrow> nat \<Rightarrow> nat option"
  global_or_sticky :: bool
  lastIndex :: nat

definition regexp_test :: "regexp \<Rightarrow> string \<Rightarrow> bool \<times> regexp" where
  "regexp_test r k =
     (if \<not> global_or_sticky r then (exec_from r k 0 \<noteq> None, r)
      else if lastIndex r > length k then (False, r\<lparr>lastIndex := 0\<rparr>)
      else (case exec_from r k (lastIndex r) of
              None \<Rightarrow> (False, r\<lparr>lastIndex := 0\<rparr>)
            | Some e \<Rightarrow> (True, r\<lparr>lastIndex := e\<rparr>)))"

datatype key_or_pattern = Key string | Pattern regexp

section \<open>The cache\<close>

text \<open>
  The closure of \<open>cache(debug)\<close> holds three Maps and two counters. A JS Map keeps
  insertion order, so each is an association list: \<open>AList.update\<close> overwrites in place
  or appends, \<open>AList.delete\<close> removes the key.

  The platform state the closure acts on is part of the state as well. \<open>timers\<close> is the
  event loop's table of timeouts, a handle being an index into it; \<open>setTimeout\<close> appends a
  live timer, \<open>clearTimeout\<close> and the firing of a timer end it. \<open>promises\<close> holds the
  promise of every fill that \<open>get\<close> started, a promise being named by its index.
  \<open>invoked\<close> lists the loaders that were called, in order, and \<open>logged\<close> what went to
  \<open>logger.debug\<close>. A lifetime is a finite number of seconds (\<open>None\<close> when the argument
  is omitted), a delay a number of milliseconds; both are exact rationals, as are the
  numbers of the report. A timer keeps the delay that \<open>setTimeout\<close> was given; when the
  event loop fires it is not fixed here, a live timer can fire at any step.
\<close>

record timer =
  tkey :: string
  delay :: rat
  live :: bool

datatype settlement = Pending | Fulfilled jsval | Rejected exn

record fill =
  fkey :: string
  flifetime :: "rat option"
  floader :: nat
  fstatus :: settlement

record state =
  debug :: bool
  cache :: "(string \<times> jsval) list"
  clearTimeouts :: "(string \<times> nat) list"
  pendingGets :: "(string \<times> nat) list"
  hits :: nat
  misses :: nat
  timers :: "timer list"
  promises :: "fill list"
  invoked :: "nat list"
  logged :: "string list"

definition cache_new :: "bool \<Rightarrow> state" where
  "cache_new dbg =
     \<lparr>debug = dbg, cache = [], clearTimeouts = [], pendingGets = [], hits = 0, misses = 0,
      timers = [], promises = [], invoked = [], logged = []\<rparr>"

definition has :: "('k \<times> 'v) list \<Rightarrow> 'k \<Rightarrow> bool" where
  "has m k = (map_of m k \<noteq> None)"

definition logger_debug :: "string \<Rightarrow> state \<Rightarrow> state" where
  "logger_debug msg s = (if debug s then s\<lparr>logged := logged s @ [msg]\<rparr> else s)"

definition clearTimeout :: "nat \<Rightarrow> state \<Rightarrow> state" where
  "clearTimeout h s =
     (if h < length (timers s) then s\<lparr>timers := (timers s)[h := (timers s ! h)\<lparr>live := False\<rparr>]\<rparr>
      else s)"

definition setTimeout :: "string \<Rightarrow> rat \<Rightarrow> state \<Rightarrow> nat \<times> state" where
  "setTimeout k ms s =
     (length (timers s), s\<lparr>timers := timers s @ [\<lparr>tkey = k, delay = ms, live = True\<rparr>]\<rparr>)"

text \<open>
  \<open>set\<close>: store, log, cancel the timer on record for the key, and with a lifetime that is
  truthy and positive schedule the deletion and record its handle.
\<close>

definition set_op :: "string \<Rightarrow> jsval \<Rightarrow> rat option \<Rightarrow> state \<Rightarrow> state" where
  "set_op key val lifetimeInSeconds s =
     (let s1 = s\<lparr>cache := AList.update key val (cache s)\<rparr>;
          s2 = logger_debug (''set: '' @ key) s1;
          s3 = (case map_of (clearTimeouts s2) key of
                  Some h \<Rightarrow> clearTimeout h s2
                | None \<Rightarrow> s2)
      in case lifetimeInSeconds of
           None \<Rightarrow> s3
         | Some t \<Rightarrow>
             if t \<noteq> 0 \<and> t > 0
             then (let (h, s4) = setTimeout key (t * 1000) s3
                   in s4\<lparr>clearTimeouts := AList.update key h (clearTimeouts s4)\<rparr>)
             else s3)"

text \<open>The callback of the timer with handle \<open>h\<close> runs: a timer fires once, and only while live.\<close>

definition fire :: "nat \<Rightarrow> state \<Rightarrow> state" where
  "fire h s =
     (if h < length (timers s) \<and> live (timers s ! h)
      then (let k = tkey (timers s ! h)
            in s\<lparr>timers := (timers s)[h := (timers s ! h)\<lparr>live := False\<rparr>],
                 cache := AList.delete k (cache s),
                 clearTimeouts := AList.delete k (clearTimeouts s)\<rparr>)
      else s)"

text \<open>
  A loader is named by a number, and its call either throws before it returns or returns a
  promise, which settles later (\<open>settle\<close>); the call itself does not use the cache.
  \<open>get\<close> is an async function: it runs to its end when called, with the body of the fill
  up to its \<open>await\<close>, and returns a promise, one fulfilled with a value at once or one that
  follows the promise of a fill. So the \<open>finally\<close> block of a fill whose loader throws
  runs before \<open>pendingGets.set\<close>.
\<close>

datatype loader_call = Throws exn | Returns

record loader =
  lname :: nat
  lcall :: loader_call

datatype get_result = Value jsval | Awaits nat

definition Map_get :: "(string \<times> jsval) list \<Rightarrow> string \<Rightarrow> jsval" where
  "Map_get m k = (case map_of m k of None \<Rightarrow> JUndefined | Some v \<Rightarrow> v)"

definition get :: "string \<Rightarrow> loader option \<Rightarrow> rat option \<Rightarrow> state \<Rightarrow> get_result \<times> state" where
  "get key fn lifetimeInSeconds s =
     (if has (cache s) key
      then (Value (Map_get (cache s) key),
            logger_debug (''hit: '' @ key) (s\<lparr>hits := Suc (hits s)\<rparr>))
      else
        (let s1 = logger_debug (''miss: '' @ key) (s\<lparr>misses := Suc (misses s)\<rparr>) in
         case fn of
           None \<Rightarrow> (Value (Map_get (cache s1) key), s1)
         | Some f \<Rightarrow>
             (case map_of (pendingGets s1) key of
                Some p \<Rightarrow> (Awaits p, logger_debug (''waiting for pending request: '' @ key) s1)
              | None \<Rightarrow>
                  (let p = length (promises s1);
                       s2 = s1\<lparr>invoked := invoked s1 @ [lname f]\<rparr>;
                       s3 = (case lcall f of
                               Throws e \<Rightarrow>
                                 s2\<lparr>pendingGets := AList.delete key (pendingGets s2),
                                    promises := promises s2 @
                                      [\<lparr>fkey = key, flifetime = lifetimeInSeconds,
                                        floader = lname f, fstatus = Rejected e\<rparr>]\<rparr>
                             | Returns \<Rightarrow>
                                 s2\<lparr>promises := promises s2 @
                                      [\<lparr>fkey = key, flifetime = lifetimeInSeconds,
                                        floader = lname f, fstatus = Pending\<rparr>]\<rparr>)
                   in (Awaits p, s3\<lparr>pendingGets := AList.update key p (pendingGets s3)\<rparr>)))))"

text \<open>
  The promise that the loader of fill \<open>p\<close> returned settles, and the rest of the fill runs:
  on a value \<open>set\<close> and then the \<open>finally\<close> block, on a failure the \<open>finally\<close> block alone.
\<close>

definition settle :: "nat \<Rightarrow> exn + jsval \<Rightarrow> state \<Rightarrow> state" where
  "settle p outcome s =
     (if p < length (promises s) \<and> fstatus (promises s ! p) = Pending
      then (let f = promises s ! p in
            case outcome of
              Inr val \<Rightarrow>
                (let s1 = set_op (fkey f) val (flifetime f) s;
                     s2 = s1\<lparr>pendingGets := AList.delete (fkey f) (pendingGets s1)\<rparr>
                 in s2\<lparr>promises := (promises s2)[p := f\<lparr>fstatus := Fulfilled val\<rparr>]\<rparr>)
            | Inl e \<Rightarrow>
                s\<lparr>pendingGets := AList.delete (fkey f) (pendingGets s),
                  promises := (promises s)[p := f\<lparr>fstatus := Rejected e\<rparr>]\<rparr>)
      else s)"

definition delete_key :: "string \<Rightarrow> state \<Rightarrow> state" where
  "delete_key k s =
     s\<lparr>cache := AList.delete k (cache s), pendingGets := AList.delete k (pendingGets s)\<rparr>"

text \<open>
  The loop of \<open>remove\<close> over the keys of the cache Map, in insertion order. Deleting the
  entry being visited leaves the rest of the iteration as it was.
\<close>

fun remove_loop :: "regexp \<Rightarrow> string list \<Rightarrow> state \<Rightarrow> state" where
  "remove_loop r [] s = s"
| "remove_loop r (k # ks) s =
     (let (m, r') = regexp_test r k
      in remove_loop r' ks (if m then delete_key k s else s))"

fun remove_op :: "key_or_pattern \<Rightarrow> state \<Rightarrow> state" where
  "remove_op (Pattern r) s = remove_loop r (map fst (cache s)) s"
| "remove_op (Key k) s = delete_key k s"

definition reset :: "state \<Rightarrow> state" where
  "reset s = s\<lparr>cache := [], pendingGets := [], hits := 0, misses := 0\<rparr>"

fun getSizeKb_loop :: "(string \<times> jsval) list \<Rightarrow> nat \<Rightarrow> exn + nat" where
  "getSizeKb_loop [] totalSize = Inr totalSize"
| "getSizeKb_loop (kv # rest) totalSize =
     (let keySize = Blob_size (Some (fst kv)) in
      case JSON_stringify (snd kv) of
        Inl e \<Rightarrow> Inl e
      | Inr text \<Rightarrow> getSizeKb_loop rest (totalSize + (keySize + Blob_size text)))"

definition getSizeKb :: "state \<Rightarrow> exn + int" where
  "getSizeKb s =
     (case getSizeKb_loop (cache s) 0 of
        Inl e \<Rightarrow> Inl e
      | Inr totalSize \<Rightarrow> Inr (Math_round (of_nat totalSize / 1024)))"

record Report =
  numItems :: nat
  hitRate :: rat
  sizeKb :: int

definition report :: "state \<Rightarrow> (exn + Report) \<times> state" where
  "report s =
     (let totalRequests = hits s + misses s;
          rate = (if totalRequests > 0 then (of_nat (hits s) / of_nat totalRequests) * 100 else 0)
      in case getSizeKb s of
           Inl e \<Rightarrow> (Inl e, s)
         | Inr kb \<Rightarrow>
             (Inr \<lparr>numItems = length (cache s),
                   hitRate = of_int (Math_round (rate * 100)) / 100,
                   sizeKb = kb\<rparr>, s))"

section \<open>Notions used to state the properties\<close>

text \<open>
  \<open>timers_ok\<close>: every live timer is the one on record in \<open>clearTimeouts\<close> for its key, so a
  key has at most one live timer. It holds of a new cache and every operation keeps it.
\<close>

definition timers_ok :: "state \<Rightarrow> bool" where
  "timers_ok s =
     (\<forall>h \<in> {0..<length (timers s)}.
        live (timers s ! h) \<longrightarrow> map_of (clearTimeouts s) (tkey (timers s ! h)) = Some h)"

text \<open>The timer table once \<open>set\<close> has cancelled the timer on record for the key.\<close>

definition cancelled :: "string \<Rightarrow> state \<Rightarrow> timer list" where
  "cancelled k s =
     (case map_of (clearTimeouts s) k of
        Some h \<Rightarrow>
          if h < length (timers s) then (timers s)[h := (timers s ! h)\<lparr>live := False\<rparr>]
          else timers s
      | None \<Rightarrow> timers s)"


text \<open>What the promise returned by a \<open>get\<close> has settled to in a state.\<close>

definition resolution :: "state \<Rightarrow> get_result \<Rightarrow> settlement" where
  "resolution s r =
     (case r of
        Value v \<Rightarrow> Fulfilled v
      | Awaits p \<Rightarrow> if p < length (promises s) then fstatus (promises s ! p) else Pending)"

definition settled :: "exn + jsval \<Rightarrow> settlement" where
  "settled outcome = (case outcome of Inl e \<Rightarrow> Rejected e | Inr v \<Rightarrow> Fulfilled v)"

text \<open>The promise that \<open>get\<close> creates for a fill, by what the call of the loader did.\<close>

definition new_fill :: "string \<Rightarrow> loader \<Rightarrow> rat option \<Rightarrow> fill" where
  "new_fill k f t =
     \<lparr>fkey = k, flifetime = t, floader = lname f,
      fstatus = (case lcall f of Throws e \<Rightarrow> Rejected e | Returns \<Rightarrow> Pending)\<rparr>"



text \<open>A pattern without the \<open>g\<close> and \<open>y\<close> flags matches a key or not, whatever was tested before.\<close>

definition matches :: "regexp \<Rightarrow> string \<Rightarrow> bool" where
  "matches r k = (exec_from r k 0 \<noteq> None)"

text \<open>The states a cache can be in: those the operations and the event loop lead to.\<close>

inductive reachable :: "state \<Rightarrow> bool" where
  new: "reachable (cache_new dbg)"
| set: "reachable s \<Longrightarrow> reachable (set_op k v t s)"
| get: "reachable s \<Longrightarrow> reachable (snd (get k fn t s))"
| settle: "reachable s \<Longrightarrow> reachable (settle p outcome s)"
| remove: "reachable s \<Longrightarrow> reachable (remove_op kp s)"
| reset: "reachable s \<Longrightarrow> reachable (reset s)"
| fire: "reachable s \<Longrightarrow> reachable (fire h s)"


section \<open>Basic facts about the operations\<close>

lemma logger_debug_alt:
  "logger_debug msg s = s\<lparr>logged := (if debug s then logged s @ [msg] else logged s)\<rparr>"
  by (simp add: logger_debug_def)

lemma delete_absent: "map_of al k = None \<Longrightarrow> AList.delete k al = al"
  by (simp add: AList.delete_notin_dom map_of_eq_None_iff)


lemma length_cancelled [simp]: "length (cancelled k s) = length (timers s)"
  by (simp add: cancelled_def split: option.splits)

lemma nth_cancelled_new [simp]: "(cancelled k s @ [x]) ! length (timers s) = x"
  by (metis length_cancelled nth_append_length)

lemma cancelled_nth:
  "h < length (timers s) \<Longrightarrow>
   cancelled k s ! h =
     (if map_of (clearTimeouts s) k = Some h then (timers s ! h)\<lparr>live := False\<rparr>
      else timers s ! h)"
  by (auto simp: cancelled_def nth_list_update split: option.splits)


lemma set_op_cache [simp]: "cache (set_op k v t s) = AList.update k v (cache s)"
  by (simp add: set_op_def setTimeout_def clearTimeout_def logger_debug_alt Let_def
      split: option.splits)

lemma set_op_frame [simp]:
  "hits (set_op k v t s) = hits s"
  "misses (set_op k v t s) = misses s"
  "pendingGets (set_op k v t s) = pendingGets s"
  "promises (set_op k v t s) = promises s"
  "invoked (set_op k v t s) = invoked s"
  "debug (set_op k v t s) = debug s"
  by (simp_all add: set_op_def setTimeout_def clearTimeout_def logger_debug_alt Let_def
      split: option.splits)

lemma set_op_timers:
  "timers (set_op k v t s) =
     (case t of
        None \<Rightarrow> cancelled k s
      | Some x \<Rightarrow>
          if 0 < x then cancelled k s @ [\<lparr>tkey = k, delay = x * 1000, live = True\<rparr>]
          else cancelled k s)"
  by (auto simp add: set_op_def setTimeout_def clearTimeout_def logger_debug_alt Let_def
      cancelled_def split: option.splits)

lemma set_op_clearTimeouts:
  "clearTimeouts (set_op k v t s) =
     (case t of
        None \<Rightarrow> clearTimeouts s
      | Some x \<Rightarrow>
          if 0 < x then AList.update k (length (timers s)) (clearTimeouts s)
          else clearTimeouts s)"
  by (auto simp add: set_op_def setTimeout_def clearTimeout_def logger_debug_alt Let_def
      split: option.splits)


lemma get_hit:
  assumes "has (cache s) k"
  shows "get k fn t s =
           (Value (Map_get (cache s) k),
            s\<lparr>hits := Suc (hits s),
              logged := (if debug s then logged s @ [''hit: '' @ k] else logged s)\<rparr>)"
  using assms by (simp add: get_def logger_debug_alt)

lemma get_miss_no_loader:
  assumes "\<not> has (cache s) k"
  shows "get k None t s =
           (Value JUndefined,
            s\<lparr>misses := Suc (misses s),
              logged := (if debug s then logged s @ [''miss: '' @ k] else logged s)\<rparr>)"
  using assms by (simp add: get_def logger_debug_alt Map_get_def has_def)


lemma get_initiate:
  assumes "\<not> has (cache s) k" and "map_of (pendingGets s) k = None"
  shows "get k (Some f) t s =
           (Awaits (length (promises s)),
            s\<lparr>misses := Suc (misses s),
              logged := (if debug s then logged s @ [''miss: '' @ k] else logged s),
              invoked := invoked s @ [lname f],
              promises := promises s @ [new_fill k f t],
              pendingGets := AList.update k (length (promises s)) (pendingGets s)\<rparr>)"
  using assms
  by (cases "lcall f") (simp_all add: get_def logger_debug_alt new_fill_def Let_def delete_absent)

lemma get_timers [simp]:
  "timers (snd (get k fn t s)) = timers s"
  "clearTimeouts (snd (get k fn t s)) = clearTimeouts s"
  "cache (snd (get k fn t s)) = cache s"
  by (auto simp: get_def logger_debug_alt Let_def split: option.splits loader_call.splits)

lemma settle_promises:
  assumes "p < length (promises s)" and "fstatus (promises s ! p) = Pending"
  shows "promises (settle p outcome s) =
           (promises s)[p := (promises s ! p)\<lparr>fstatus := settled outcome\<rparr>]"
  using assms by (cases outcome) (simp_all add: settle_def settled_def Let_def)

lemma settle_pendingGets:
  assumes "p < length (promises s)" and "fstatus (promises s ! p) = Pending"
  shows "pendingGets (settle p outcome s) = AList.delete (fkey (promises s ! p)) (pendingGets s)"
  using assms by (cases outcome) (simp_all add: settle_def Let_def)

lemma settle_cache:
  assumes "p < length (promises s)" and "fstatus (promises s ! p) = Pending"
  shows "cache (settle p outcome s) =
           (case outcome of
              Inl e \<Rightarrow> cache s
            | Inr v \<Rightarrow> AList.update (fkey (promises s ! p)) v (cache s))"
  using assms by (cases outcome) (simp_all add: settle_def Let_def)

lemma settle_frame [simp]:
  "hits (settle p outcome s) = hits s"
  "misses (settle p outcome s) = misses s"
  "invoked (settle p outcome s) = invoked s"
  "debug (settle p outcome s) = debug s"
  by (cases outcome; simp add: settle_def Let_def)+

lemma resolution_settle:
  assumes "p < length (promises s)" and "fstatus (promises s ! p) = Pending"
  shows "resolution (settle p outcome s) (Awaits p) = settled outcome"
  using assms by (simp add: resolution_def settle_promises)

lemma delete_key_frame [simp]:
  "cache (delete_key k s) = AList.delete k (cache s)"
  "pendingGets (delete_key k s) = AList.delete k (pendingGets s)"
  "timers (delete_key k s) = timers s"
  "clearTimeouts (delete_key k s) = clearTimeouts s"
  "hits (delete_key k s) = hits s"
  "misses (delete_key k s) = misses s"
  "promises (delete_key k s) = promises s"
  "invoked (delete_key k s) = invoked s"
  by (simp_all add: delete_key_def)

lemma remove_loop_timers [simp]:
  "timers (remove_loop r ks s) = timers s \<and> clearTimeouts (remove_loop r ks s) = clearTimeouts s"
  by (induction ks arbitrary: r s) (simp_all add: case_prod_beta)

lemma remove_op_timers [simp]:
  "timers (remove_op kp s) = timers s"
  "clearTimeouts (remove_op kp s) = clearTimeouts s"
  by (cases kp; simp)+

subsection \<open>Every reachable state has at most one live timer for a key\<close>

lemma timers_ok_cong:
  "timers s' = timers s \<Longrightarrow> clearTimeouts s' = clearTimeouts s \<Longrightarrow> timers_ok s' = timers_ok s"
  by (simp add: timers_ok_def)

lemma timers_ok_new: "timers_ok (cache_new dbg)"
  by (simp add: timers_ok_def cache_new_def)

lemma timers_ok_set_op: "timers_ok s \<Longrightarrow> timers_ok (set_op k v t s)"
  unfolding timers_ok_def
  by (auto simp: set_op_timers set_op_clearTimeouts cancelled_nth nth_append update_conv'
      less_Suc_eq split: option.splits if_splits)

lemma timers_ok_get: "timers_ok s \<Longrightarrow> timers_ok (snd (get k fn t s))"
  by (simp add: timers_ok_cong [of "snd (get k fn t s)" s])

lemma settle_disabled:
  assumes "\<not> (p < length (promises s) \<and> fstatus (promises s ! p) = Pending)"
  shows "settle p outcome s = s"
  unfolding settle_def using assms by (rule if_not_P)

lemma settle_timers:
  assumes "p < length (promises s)" and "fstatus (promises s ! p) = Pending"
  shows "timers (settle p outcome s) =
           (case outcome of
              Inl e \<Rightarrow> timers s
            | Inr v \<Rightarrow> timers (set_op (fkey (promises s ! p)) v (flifetime (promises s ! p)) s))"
    and "clearTimeouts (settle p outcome s) =
           (case outcome of
              Inl e \<Rightarrow> clearTimeouts s
            | Inr v \<Rightarrow>
                clearTimeouts (set_op (fkey (promises s ! p)) v (flifetime (promises s ! p)) s))"
  using assms by (cases outcome; simp add: settle_def Let_def)+

lemma timers_ok_settle:
  assumes "timers_ok s"
  shows "timers_ok (settle p outcome s)"
proof (cases "p < length (promises s) \<and> fstatus (promises s ! p) = Pending")
  case False
  have "settle p outcome s = s"
    using False by (rule settle_disabled)
  then show ?thesis using assms by simp
next
  case True
  then have p: "p < length (promises s)" "fstatus (promises s ! p) = Pending"
    by simp_all
  show ?thesis
  proof (cases outcome)
    case (Inl e)
    then show ?thesis
      using assms timers_ok_cong [of "settle p outcome s" s] by (simp add: settle_timers [OF p])
  next
    case (Inr v)
    let ?s1 = "set_op (fkey (promises s ! p)) v (flifetime (promises s ! p)) s"
    from Inr show ?thesis
      using timers_ok_set_op [OF assms, of "fkey (promises s ! p)" v "flifetime (promises s ! p)"]
        timers_ok_cong [of "settle p outcome s" ?s1]
      by (simp add: settle_timers [OF p])
  qed
qed

lemma timers_ok_remove_op: "timers_ok s \<Longrightarrow> timers_ok (remove_op kp s)"
  by (simp add: timers_ok_cong [of "remove_op kp s" s])

lemma timers_ok_reset: "timers_ok s \<Longrightarrow> timers_ok (reset s)"
  by (simp add: timers_ok_def reset_def)

lemma timers_ok_fire:
  assumes "timers_ok s"
  shows "timers_ok (fire h s)"
proof (cases "h < length (timers s) \<and> live (timers s ! h)")
  case False
  then show ?thesis using assms by (auto simp: fire_def)
next
  case True
  have rec: "map_of (clearTimeouts s) (tkey (timers s ! h')) = Some h'"
    if "h' < length (timers s)" and "live (timers s ! h')" for h'
    using assms that by (simp add: timers_ok_def)
  show ?thesis
    unfolding timers_ok_def
  proof (intro ballI impI)
    fix h'
    assume h': "h' \<in> {0..<length (timers (fire h s))}"
      and lv: "live (timers (fire h s) ! h')"
    have lt: "h' < length (timers s)"
      using h' True by (simp add: fire_def Let_def)
    have ne: "h' \<noteq> h"
      using lv lt True by (auto simp: fire_def Let_def)
    have same: "timers (fire h s) ! h' = timers s ! h'"
      using lt ne True by (simp add: fire_def Let_def)
    have lv': "live (timers s ! h')"
      using lv same by simp
    have "tkey (timers s ! h') \<noteq> tkey (timers s ! h)"
      using rec [OF lt lv'] rec [of h] True ne by auto
    moreover have "clearTimeouts (fire h s) = AList.delete (tkey (timers s ! h)) (clearTimeouts s)"
      using True by (simp add: fire_def Let_def)
    ultimately show "map_of (clearTimeouts (fire h s)) (tkey (timers (fire h s) ! h')) = Some h'"
      using rec [OF lt lv'] by (simp add: same delete_conv')
  qed
qed

lemma reachable_timers_ok: "reachable s \<Longrightarrow> timers_ok s"
  by (induction rule: reachable.induct)
     (simp_all add: timers_ok_new timers_ok_set_op timers_ok_get timers_ok_settle
        timers_ok_remove_op timers_ok_reset timers_ok_fire)


section \<open>Reading: hits and misses\<close>

text \<open>
  C7. A \<open>get\<close> of a key that has an entry returns the stored value, adds one to the hit
  counter and calls no loader, supplied or not. A \<open>get\<close> of a key without an entry adds
  one to the miss counter, and without a loader it returns \<open>undefined\<close>.
\<close>

theorem get_hit_or_miss:
  "(map_of (cache s) k = Some v \<longrightarrow>
      fst (get k fn t s) = Value v \<and>
      hits (snd (get k fn t s)) = hits s + 1 \<and>
      misses (snd (get k fn t s)) = misses s \<and>
      invoked (snd (get k fn t s)) = invoked s) \<and>
   (map_of (cache s) k = None \<longrightarrow>
      misses (snd (get k fn t s)) = misses s + 1 \<and>
      hits (snd (get k fn t s)) = hits s \<and>
      (fn = None \<longrightarrow>
         fst (get k fn t s) = Value JUndefined \<and>
         invoked (snd (get k fn t s)) = invoked s))"
proof (intro conjI impI)
  assume "map_of (cache s) k = Some v"
  then have h: "has (cache s) k" and m: "Map_get (cache s) k = v"
    by (simp_all add: has_def Map_get_def)
  show "fst (get k fn t s) = Value v" "hits (snd (get k fn t s)) = hits s + 1"
    "misses (snd (get k fn t s)) = misses s" "invoked (snd (get k fn t s)) = invoked s"
    by (simp_all add: get_hit [OF h] m)
next
  assume "map_of (cache s) k = None"
  then have h: "\<not> has (cache s) k"
    by (simp add: has_def)
  show "misses (snd (get k fn t s)) = misses s + 1" "hits (snd (get k fn t s)) = hits s"
    using h
    by (auto simp: get_def logger_debug_alt Let_def split: option.splits loader_call.splits)
  assume "fn = None"
  then show "fst (get k fn t s) = Value JUndefined" "invoked (snd (get k fn t s)) = invoked s"
    by (simp_all add: get_miss_no_loader [OF h])
qed

theorem get_hit_or_miss_witness:
  "(let s = set_op ''foo'' (JNum 123) None (cache_new False);
        fn = Some \<lparr>lname = 7, lcall = Returns\<rparr>
    in map_of (cache s) ''foo'' = Some (JNum 123) \<and>
       fst (get ''foo'' fn None s) = Value (JNum 123) \<and>
       hits (snd (get ''foo'' fn None s)) = 1 \<and>
       misses (snd (get ''foo'' fn None s)) = 0 \<and>
       invoked (snd (get ''foo'' fn None s)) = [] \<and>
       map_of (cache s) ''not-there'' = None \<and>
       misses (snd (get ''not-there'' None None s)) = 1 \<and>
       fst (get ''not-there'' None None s) = Value JUndefined)"
proof -
  let ?s = "set_op ''foo'' (JNum 123) None (cache_new False)"
  have a: "map_of (cache ?s) ''foo'' = Some (JNum 123)"
    and b: "map_of (cache ?s) ''not-there'' = None"
    and c: "hits ?s = 0" "misses ?s = 0" "invoked ?s = []"
    by (simp_all add: cache_new_def)
  show ?thesis
    using a b c
      get_hit_or_miss [of ?s "''foo''" "JNum 123" "Some \<lparr>lname = 7, lcall = Returns\<rparr>" None]
      get_hit_or_miss [of ?s "''not-there''" "JNum 123" None None]
    by (simp add: Let_def)
qed

text \<open>
  C10. A \<open>get\<close> of a key that has an entry changes the hit counter (and, in debug mode, the
  log) and nothing else: the entries, the record of timers, the timers themselves and the
  pending fills stay as they were, so no timer is refreshed, extended or cancelled.
\<close>

theorem get_hit_frame:
  assumes "has (cache s) k"
  shows "snd (get k fn t s) =
           s\<lparr>hits := Suc (hits s),
             logged := (if debug s then logged s @ [''hit: '' @ k] else logged s)\<rparr> \<and>
         cache (snd (get k fn t s)) = cache s \<and>
         clearTimeouts (snd (get k fn t s)) = clearTimeouts s \<and>
         timers (snd (get k fn t s)) = timers s \<and>
         pendingGets (snd (get k fn t s)) = pendingGets s \<and>
         promises (snd (get k fn t s)) = promises s \<and>
         misses (snd (get k fn t s)) = misses s \<and>
         hits (snd (get k fn t s)) = Suc (hits s)"
  by (simp add: get_hit [OF assms])

theorem get_hit_frame_witness:
  "(let s = set_op ''foo'' (JNum 123) (Some 5) (cache_new False);
        s' = snd (get ''foo'' (Some \<lparr>lname = 7, lcall = Returns\<rparr>) (Some 9) s)
    in has (cache s) ''foo'' \<and>
       cache s' = [(''foo'', JNum 123)] \<and>
       clearTimeouts s' = [(''foo'', 0)] \<and>
       timers s' = [\<lparr>tkey = ''foo'', delay = 5000, live = True\<rparr>] \<and>
       pendingGets s' = [] \<and> hits s' = 1 \<and> misses s' = 0)"
proof -
  let ?s = "set_op ''foo'' (JNum 123) (Some 5) (cache_new False)"
  have h: "has (cache ?s) ''foo''"
    by (simp add: has_def cache_new_def)
  have "cache ?s = [(''foo'', JNum 123)]" "clearTimeouts ?s = [(''foo'', 0)]"
    "timers ?s = [\<lparr>tkey = ''foo'', delay = 5000, live = True\<rparr>]"
    "pendingGets ?s = []" "hits ?s = 0" "misses ?s = 0"
    by (simp_all add: set_op_timers set_op_clearTimeouts cancelled_def cache_new_def)
  then show ?thesis
    using h get_hit_frame [OF h, of "Some \<lparr>lname = 7, lcall = Returns\<rparr>" "Some 9"]
    by (simp add: Let_def)
qed


section \<open>Writing: timers\<close>





section \<open>Fills\<close>







section \<open>Loaders that fail\<close>

text \<open>
  When the promise of the loader rejects, the fill stores nothing, takes itself out of
  \<open>pendingGets\<close> and rejects with the same error; the key is then as it was before the
  fill, and a later \<open>get\<close> with a loader calls that loader.
\<close>

lemma rejected_fill_leaves_no_trace:
  assumes "p < length (promises s)" and "fstatus (promises s ! p) = Pending"
    and "fkey (promises s ! p) = k"
  shows "cache (settle p (Inl e) s) = cache s \<and>
         map_of (pendingGets (settle p (Inl e) s)) k = None \<and>
         resolution (settle p (Inl e) s) (Awaits p) = Rejected e \<and>
         (\<not> has (cache s) k \<longrightarrow>
            fst (get k None t (settle p (Inl e) s)) = Value JUndefined \<and>
            invoked (snd (get k (Some f) t (settle p (Inl e) s))) = invoked s @ [lname f])"
proof -
  let ?s' = "settle p (Inl e) s"
  have c: "cache ?s' = cache s"
    by (simp add: settle_cache [OF assms(1,2)])
  have g: "map_of (pendingGets ?s') k = None"
    by (simp add: settle_pendingGets [OF assms(1,2)] assms(3) delete_conv')
  have r: "resolution ?s' (Awaits p) = Rejected e"
    by (simp add: resolution_settle [OF assms(1,2)] settled_def)
  have n: "fst (get k None t ?s') = Value JUndefined \<and>
      invoked (snd (get k (Some f) t ?s')) = invoked s @ [lname f]"
    if "\<not> has (cache s) k"
  proof -
    have h: "\<not> has (cache ?s') k"
      using that by (simp add: c)
    show ?thesis
      by (simp add: get_miss_no_loader [OF h] get_initiate [OF h g])
  qed
  show ?thesis using c g r n by blast
qed

text \<open>
  C2, at the input where it fails. A loader that throws before it returns a promise: the
  \<open>finally\<close> block has run by the time \<open>get\<close> registers the promise, so the rejected
  promise stays in \<open>pendingGets\<close>. The error does reach the caller and nothing is stored,
  but the next \<open>get\<close> of the key joins the rejected promise and never calls its own loader.
\<close>

theorem throwing_loader_stays_pending:
  "(let l1 = \<lparr>lname = 1, lcall = Throws (Error ''test error'')\<rparr>;
        l2 = \<lparr>lname = 2, lcall = Returns\<rparr>;
        s1 = snd (get ''error'' (Some l1) None (cache_new False));
        s2 = snd (get ''error'' (Some l2) None s1)
    in fst (get ''error'' (Some l1) None (cache_new False)) = Awaits 0 \<and>
       resolution s1 (Awaits 0) = Rejected (Error ''test error'') \<and>
       cache s1 = [] \<and>
       pendingGets s1 = [(''error'', 0)] \<and>
       fst (get ''error'' (Some l2) None s1) = Awaits 0 \<and>
       resolution s2 (Awaits 0) = Rejected (Error ''test error'') \<and>
       invoked s2 = [1])"
  by (simp add: get_def has_def cache_new_def logger_debug_alt resolution_def Let_def)

section \<open>Removing and resetting\<close>

lemma reset_effect:
  "cache (reset s) = [] \<and> pendingGets (reset s) = [] \<and> hits (reset s) = 0 \<and>
   misses (reset s) = 0 \<and> timers (reset s) = timers s \<and>
   clearTimeouts (reset s) = clearTimeouts s"
  by (simp add: reset_def)

lemma reset_idempotent: "reset (reset s) = reset s"
  by (simp add: reset_def)

text \<open>
  C3, at the input where it fails. After \<open>set('a', 1, 3600)\<close> a \<open>reset\<close> empties the cache
  and the pending fills and zeroes the counters, but the timer is still live and still on
  record: \<open>reset\<close> calls no \<open>clearTimeout\<close>.
\<close>

theorem reset_leaves_timers_live:
  "(let s = reset (set_op ''a'' (JNum 1) (Some 3600) (cache_new False))
    in cache s = [] \<and> pendingGets s = [] \<and> hits s = 0 \<and> misses s = 0 \<and>
       timers s = [\<lparr>tkey = ''a'', delay = 3600000, live = True\<rparr>] \<and>
       clearTimeouts s = [(''a'', 0)] \<and>
       reset s = s)"
  by (simp add: reset_def set_op_def setTimeout_def logger_debug_alt cache_new_def Let_def)

lemma remove_key_effect:
  "cache (remove_op (Key k) s) = AList.delete k (cache s) \<and>
   pendingGets (remove_op (Key k) s) = AList.delete k (pendingGets s) \<and>
   timers (remove_op (Key k) s) = timers s \<and>
   clearTimeouts (remove_op (Key k) s) = clearTimeouts s \<and>
   hits (remove_op (Key k) s) = hits s \<and> misses (remove_op (Key k) s) = misses s"
  by simp

lemma delete_filter: "AList.delete k al = filter (\<lambda>kv. fst kv \<noteq> k) al"
  by (induction al) auto

lemma regexp_test_stateless:
  "\<not> global_or_sticky r \<Longrightarrow> regexp_test r k = (matches r k, r)"
  by (simp add: regexp_test_def matches_def)

lemma remove_loop_stateless:
  assumes "\<not> global_or_sticky r"
  shows "cache (remove_loop r ks s) =
           filter (\<lambda>kv. \<not> (fst kv \<in> set ks \<and> matches r (fst kv))) (cache s) \<and>
         pendingGets (remove_loop r ks s) =
           filter (\<lambda>kv. \<not> (fst kv \<in> set ks \<and> matches r (fst kv))) (pendingGets s) \<and>
         hits (remove_loop r ks s) = hits s \<and> misses (remove_loop r ks s) = misses s"
proof (induction ks arbitrary: s)
  case Nil
  show ?case by simp
next
  case (Cons k ks)
  show ?case
  proof (cases "matches r k")
    case True
    then have "remove_loop r (k # ks) s = remove_loop r ks (delete_key k s)"
      by (simp add: regexp_test_stateless [OF assms])
    then show ?thesis
      using True by (auto simp: Cons.IH delete_filter intro!: filter_cong)
  next
    case False
    then have "remove_loop r (k # ks) s = remove_loop r ks s"
      by (simp add: regexp_test_stateless [OF assms])
    then show ?thesis
      using False by (auto simp: Cons.IH intro!: filter_cong)
  qed
qed

text \<open>
  A pattern without the \<open>g\<close> and \<open>y\<close> flags: the entries whose keys match go, with the
  pending fills of those keys; the other entries stay, and so does every timer.
\<close>

lemma remove_pattern_effect:
  assumes "\<not> global_or_sticky r"
  shows "cache (remove_op (Pattern r) s) = filter (\<lambda>kv. \<not> matches r (fst kv)) (cache s) \<and>
         pendingGets (remove_op (Pattern r) s) =
           filter (\<lambda>kv. \<not> (has (cache s) (fst kv) \<and> matches r (fst kv))) (pendingGets s) \<and>
         timers (remove_op (Pattern r) s) = timers s \<and>
         clearTimeouts (remove_op (Pattern r) s) = clearTimeouts s"
  by (auto simp: remove_loop_stateless [OF assms] has_def map_of_eq_None_iff
      intro!: filter_cong)

text \<open>
  C4, at the input where it fails. After \<open>set('k', 1, 10)\<close> a \<open>remove('k')\<close> deletes the
  entry, but the timer is still live and still on record: \<open>remove\<close> calls no \<open>clearTimeout\<close>.
\<close>

theorem remove_leaves_timer_live:
  "(let s = remove_op (Key ''k'') (set_op ''k'' (JNum 1) (Some 10) (cache_new False))
    in cache s = [] \<and> pendingGets s = [] \<and>
       timers s = [\<lparr>tkey = ''k'', delay = 10000, live = True\<rparr>] \<and>
       clearTimeouts s = [(''k'', 0)])"
  by (simp add: delete_key_def set_op_def setTimeout_def logger_debug_alt cache_new_def Let_def)

text \<open>The same with a pattern, on the three keys of the test of removal by pattern.\<close>

lemma remove_pattern_leaves_timers_live:
  "(let user = \<lparr>exec_from = (\<lambda>k i. if i = 0 \<and> take 5 k = ''user:'' then Some 5 else None),
                global_or_sticky = False, lastIndex = 0\<rparr>;
        s0 = set_op ''config:theme'' (JStr ''dark'') (Some 10)
               (set_op ''user:456'' (JStr ''bob'') (Some 10)
                 (set_op ''user:123'' (JStr ''alice'') (Some 10) (cache_new False)));
        s = remove_op (Pattern user) s0
    in cache s = [(''config:theme'', JStr ''dark'')] \<and>
       map live (timers s) = [True, True, True] \<and>
       map tkey (timers s) = [''user:123'', ''user:456'', ''config:theme''])"
  by (simp add: regexp_test_def delete_key_def set_op_def setTimeout_def logger_debug_alt
      cache_new_def Let_def)

text \<open>
  With the \<open>g\<close> flag \<open>test\<close> resumes where the last match ended, so the key after a
  matching key is tested from the wrong index and is kept although the pattern matches it.
\<close>

lemma remove_global_pattern_skips:
  "(let user = \<lparr>exec_from = (\<lambda>k i. if i = 0 \<and> take 5 k = ''user:'' then Some 5 else None),
                global_or_sticky = True, lastIndex = 0\<rparr>;
        s0 = set_op ''config:theme'' (JStr ''dark'') None
               (set_op ''user:456'' (JStr ''bob'') None
                 (set_op ''user:123'' (JStr ''alice'') None (cache_new False)))
    in cache (remove_op (Pattern user) s0) =
         [(''user:456'', JStr ''bob''), (''config:theme'', JStr ''dark'')])"
  by (simp add: regexp_test_def delete_key_def set_op_def logger_debug_alt cache_new_def Let_def)


section \<open>The report\<close>




lemma Math_round_0 [simp]: "Math_round 0 = 0"
  by (simp add: Math_round_def floor_eq_iff)

lemma report_state [simp]: "snd (report s) = s"
  by (simp add: report_def Let_def split: sum.splits)






end
